theory Spec2Isabelle
  imports Complex_Main
begin

section \<open>Python strings\<close>

text \<open>
  A Python \<open>str\<close> is modelled as a \<open>string\<close>. A \<open>char\<close> stands for the code point of
  the same number, so the model covers the strings over the code points 0 to 255; on these
  the library functions below are what CPython computes (\<open>len\<close> is \<open>length\<close>).
\<close>

definition code_point :: "char \<Rightarrow> nat" where
  "code_point c = of_char c"

text \<open>\<open>str.isspace\<close> on one character: the white space that \<open>str.strip()\<close> removes.\<close>

definition isspace :: "char \<Rightarrow> bool" where
  "isspace c = (code_point c \<in> {9, 10, 11, 12, 13, 28, 29, 30, 31, 32, 133, 160})"

text \<open>\<open>str.strip()\<close> with no argument: leading and trailing white space removed.\<close>

definition strip :: "string \<Rightarrow> string" where
  "strip s = rev (dropWhile isspace (rev (dropWhile isspace s)))"

text \<open>
  \<open>str.lower()\<close>: the letters A to Z and the upper-case letters of the range 192 to 222
  (215, the multiplication sign, is no letter) move 32 code points up.
\<close>

definition lower_char :: "char \<Rightarrow> char" where
  "lower_char c =
     (let n = code_point c
      in if (65 \<le> n \<and> n \<le> 90) \<or> (192 \<le> n \<and> n \<le> 222 \<and> n \<noteq> 215)
         then char_of (n + 32) else c)"

definition lower :: "string \<Rightarrow> string" where
  "lower s = map lower_char s"

text \<open>\<open>s.endswith(suffix)\<close> and \<open>sub in s\<close>.\<close>

definition endswith :: "string \<Rightarrow> string \<Rightarrow> bool" where
  "endswith s suffix =
     (length suffix \<le> length s \<and> drop (length s - length suffix) s = suffix)"

fun contains :: "string \<Rightarrow> string \<Rightarrow> bool" where
  "contains sub [] = (sub = [])"
| "contains sub (c # cs) = (take (length sub) (c # cs) = sub \<or> contains sub cs)"

section \<open>Regular expressions of the bot\<close>

text \<open>
  \<open>FORBIDDEN_CHARACTERS = r"[\n\r\t]"\<close>: newline, carriage return and tab.
\<close>

definition FORBIDDEN_CHARACTERS :: "char list" where
  "FORBIDDEN_CHARACTERS = [CHR 0x0A, CHR 0x0D, CHR 0x09]"

text \<open>
  \<open>pattern.sub(repl, s)\<close> for a pattern that is one character class: the scan goes left to
  right, a character of the class is replaced by \<open>repl\<close>, any other is copied.
\<close>

fun re_sub_class :: "char list \<Rightarrow> string \<Rightarrow> string \<Rightarrow> string" where
  "re_sub_class cls repl [] = []"
| "re_sub_class cls repl (c # cs) =
     (if c \<in> set cls then repl @ re_sub_class cls repl cs
      else c # re_sub_class cls repl cs)"

text \<open>
  The class \<open>\w\<close> of a \<open>str\<close> pattern: alphanumeric characters and the underscore,
  given by their code points.
\<close>

definition word_code :: "nat \<Rightarrow> bool" where
  "word_code n =
     ((48 \<le> n \<and> n \<le> 57) \<or> (65 \<le> n \<and> n \<le> 90) \<or> n = 95 \<or> (97 \<le> n \<and> n \<le> 122)
      \<or> n = 170 \<or> n = 178 \<or> n = 179 \<or> n = 181 \<or> n = 185 \<or> n = 186
      \<or> (188 \<le> n \<and> n \<le> 190) \<or> (192 \<le> n \<and> n \<le> 214) \<or> (216 \<le> n \<and> n \<le> 246)
      \<or> (248 \<le> n \<and> n \<le> 255))"

definition is_word_char :: "char \<Rightarrow> bool" where
  "is_word_char c = word_code (code_point c)"

text \<open>
  \<open>\b\<close> at position \<open>i\<close> of \<open>s\<close>: exactly one of the characters before and after the
  position is a word character (the ends of the string count as non-word).
\<close>

definition word_boundary :: "string \<Rightarrow> nat \<Rightarrow> bool" where
  "word_boundary s i =
     ((0 < i \<and> i \<le> length s \<and> is_word_char (s ! (i - 1)))
       \<noteq> (i < length s \<and> is_word_char (s ! i)))"

text \<open>
  The pattern \<open>\b\<close>, literal text, \<open>\b\<close> with \<open>re.IGNORECASE\<close>, matched at position
  \<open>i\<close>: a boundary, the characters of the text up to case, a boundary. Ignoring case, two
  characters of the range match when their lower-case forms are equal.
\<close>

definition wakeword_match_at :: "string \<Rightarrow> string \<Rightarrow> nat \<Rightarrow> bool" where
  "wakeword_match_at wakeword s i =
     (word_boundary s i
      \<and> i + length wakeword \<le> length s
      \<and> lower (take (length wakeword) (drop i s)) = lower wakeword
      \<and> word_boundary s (i + length wakeword))"

text \<open>\<open>pattern.search(s)\<close> for that pattern: is there a position where it matches.\<close>

definition wakeword_search :: "string \<Rightarrow> string \<Rightarrow> bool" where
  "wakeword_search wakeword s =
     list_ex (wakeword_match_at wakeword s) [0 ..< Suc (length s)]"

text \<open>
  A compiled pattern is modelled by its search: whether \<open>pattern.search(s)\<close> finds a match.
\<close>

type_synonym pattern = "string \<Rightarrow> bool"




section \<open>Messages\<close>

text \<open>
  The fields of \<open>discord.Message\<close> that the bot reads. \<open>guild_name\<close> is \<open>None\<close> for a
  message outside any guild; \<open>channel_private\<close> says that the channel's type is
  \<open>ChannelType.private\<close>; \<open>mentions\<close> holds the ids of the mentioned users;
  \<open>created_at\<close> is \<open>message.created_at.timestamp()\<close>. Times and chances are Python floats:
  their type \<open>'n\<close> is left open, and only its order and its \<open>+\<close> and \<open>-\<close> are used.
\<close>

record 'n message =
  msg_id :: int
  content :: string
  author_id :: int
  author_name :: string
  author_bot :: bool
  guild_name :: "string option"
  channel_id :: int
  channel_private :: bool
  mentions :: "int list"
  created_at :: 'n

section \<open>Sanitizer\<close>

definition sanitize_string :: "string \<Rightarrow> string" where
  "sanitize_string raw_string = re_sub_class FORBIDDEN_CHARACTERS '' '' raw_string"

record clean_message =
  author :: string
  message_text :: string
  server :: string

definition sanitize_message :: "'n message \<Rightarrow> clean_message" where
  "sanitize_message raw_message =
     (let raw_guild_name = (case guild_name raw_message of Some name \<Rightarrow> name | None \<Rightarrow> ''DM'')
      in \<lparr> author = sanitize_string (author_name raw_message),
           message_text = strip (sanitize_string (content raw_message)),
           server = sanitize_string raw_guild_name \<rparr>)"

section \<open>RepetitionTracker\<close>

text \<open>
  \<open>repetition_count\<close> maps a channel id to
  \<open>(last_message, throttle_message_id, repetition_count)\<close>.
\<close>

record repetition_tracker =
  repetition_threshold :: int
  repetition_count :: "int \<rightharpoonup> (string \<times> int \<times> int)"

text \<open>\<open>RepetitionTracker(repetition_threshold)\<close>: no channel recorded.\<close>

definition new_tracker :: "int \<Rightarrow> repetition_tracker" where
  "new_tracker threshold = \<lparr> repetition_threshold = threshold, repetition_count = Map.empty \<rparr>"

definition make_canonical :: "string \<Rightarrow> string" where
  "make_canonical c = lower (strip c)"

definition should_throttle :: "repetition_tracker \<Rightarrow> int \<Rightarrow> bool" where
  "should_throttle t count = (count \<ge> repetition_threshold t)"

text \<open>
  \<open>get_throttle_message_id\<close>: the default of the lookup is \<open>(None, None, None)\<close>, so an
  unknown channel gives \<open>None\<close>; a known channel gives the stored integer.
\<close>

definition get_throttle_message_id :: "repetition_tracker \<Rightarrow> int \<Rightarrow> int option" where
  "get_throttle_message_id t channel =
     (case repetition_count t channel of
        None \<Rightarrow> None
      | Some (last_message, throttle_message_id, count) \<Rightarrow> Some throttle_message_id)"

definition log_message :: "repetition_tracker \<Rightarrow> int \<Rightarrow> 'n message \<Rightarrow> repetition_tracker" where
  "log_message t channel response_message =
     (let sentence = make_canonical (content response_message);
          (last_message, throttle_message_id, count) =
             (case repetition_count t channel of None \<Rightarrow> ('''', 0, 0) | Some e \<Rightarrow> e);
          count = (if last_message = sentence then count + 1 else 0);
          throttle_message_id =
             (if should_throttle t count then msg_id response_message
              else throttle_message_id)
      in t\<lparr> repetition_count :=
              (repetition_count t)(channel \<mapsto> (sentence, throttle_message_id, count)) \<rparr>)"

text \<open>The bot's messages logged one after the other, each with its channel.\<close>

fun log_messages :: "repetition_tracker \<Rightarrow> (int \<times> 'n message) list \<Rightarrow> repetition_tracker" where
  "log_messages t [] = t"
| "log_messages t ((channel, m) # rest) = log_messages (log_message t channel m) rest"

text \<open>
  Whether logging the messages ever found the counter of \<open>channel\<close> at the threshold (the
  branch of \<open>log_message\<close> that warns "Repetition found" and moves the boundary).
\<close>

definition logged_count :: "repetition_tracker \<Rightarrow> int \<Rightarrow> int" where
  "logged_count t channel =
     (case repetition_count t channel of None \<Rightarrow> 0 | Some (last_message, b, count) \<Rightarrow> count)"

fun ever_throttled :: "repetition_tracker \<Rightarrow> int \<Rightarrow> (int \<times> 'n message) list \<Rightarrow> bool" where
  "ever_throttled t channel [] = False"
| "ever_throttled t channel ((c, m) # rest) =
     ((c = channel \<and> should_throttle t (logged_count (log_message t c m) c))
      \<or> ever_throttled (log_message t c m) channel rest)"

text \<open>
  No boundary for a channel: the lookup gives \<open>None\<close> or the default \<open>0\<close> of
  \<open>log_message\<close>, the two values that the truth test of \<open>generate_history\<close> takes for
  "no boundary".
\<close>

definition no_boundary :: "repetition_tracker \<Rightarrow> int \<Rightarrow> bool" where
  "no_boundary t ch = (get_throttle_message_id t ch = None \<or> get_throttle_message_id t ch = Some 0)"

section \<open>PromptGenerator\<close>

text \<open>
  \<open>history_line_template author text\<close> stands for
  \<open>settings.template_store.format(Settings.DISCORD_PROMPT_HISTORY_LINE_TEMPLATE,
  DISCORD_USER_NAME=author, DISCORD_USER_MESSAGE=text)\<close>: the template store and its
  template are configuration, so the rendering is a parameter of the generator.
\<close>

record prompt_generator =
  ai_name :: string
  max_history_chars :: int
  history_line_template :: "string \<Rightarrow> string \<Rightarrow> string"

definition IMAGE_MARKER :: string where
  "IMAGE_MARKER = ''tried to make an image with the prompt''"

text \<open>
  The loop of \<open>generate_history\<close> over the messages, newest first. The test
  \<open>stop_before_message_id and raw_message.id == stop_before_message_id\<close> is Python's
  truth test: \<open>None\<close> and \<open>0\<close> are both false. \<open>continue\<close> goes on with the rest and
  \<open>break\<close> returns what has been collected.
\<close>

fun history_loop ::
  "prompt_generator \<Rightarrow> int \<Rightarrow> int option \<Rightarrow> 'n message list \<Rightarrow> int \<Rightarrow> string list
     \<Rightarrow> string list" where
  "history_loop g ai_user_id stop_before_message_id [] prompt_len_remaining history_lines =
     history_lines"
| "history_loop g ai_user_id stop_before_message_id (raw_message # rest)
       prompt_len_remaining history_lines =
     (if stop_before_message_id \<noteq> None \<and> stop_before_message_id \<noteq> Some 0
         \<and> Some (msg_id raw_message) = stop_before_message_id
      then history_lines
      else
        let clean = sanitize_message raw_message;
            author_shown = (if author_id raw_message = ai_user_id then ai_name g else author clean)
        in if author_id raw_message = ai_user_id \<and> contains IMAGE_MARKER (message_text clean)
           then history_loop g ai_user_id stop_before_message_id rest
                  prompt_len_remaining history_lines
           else if message_text clean = []
           then history_loop g ai_user_id stop_before_message_id rest
                  prompt_len_remaining history_lines
           else
             let line = history_line_template g author_shown (message_text clean)
             in if int (length line) > prompt_len_remaining
                then history_lines
                else history_loop g ai_user_id stop_before_message_id rest
                       (prompt_len_remaining - int (length line)) (history_lines @ [line]))"

definition generate_history ::
  "prompt_generator \<Rightarrow> int \<Rightarrow> 'n message list \<Rightarrow> int option \<Rightarrow> string" where
  "generate_history g ai_user_id message_history stop_before_message_id =
     concat (rev (history_loop g ai_user_id stop_before_message_id message_history
                    (max_history_chars g) []))"

text \<open>
  For the statements about the history: the line a message is rendered to, \<open>None\<close> for a
  message the loop passes over, and the lines of a list of messages in scan order.
\<close>

definition rendered_line :: "prompt_generator \<Rightarrow> int \<Rightarrow> 'n message \<Rightarrow> string option" where
  "rendered_line g ai_user_id raw_message =
     (let clean = sanitize_message raw_message
      in if author_id raw_message = ai_user_id \<and> contains IMAGE_MARKER (message_text clean)
         then None
         else if message_text clean = [] then None
         else Some (history_line_template g
                      (if author_id raw_message = ai_user_id then ai_name g else author clean)
                      (message_text clean)))"

definition rendered_lines :: "prompt_generator \<Rightarrow> int \<Rightarrow> 'n message list \<Rightarrow> string list" where
  "rendered_lines g ai_user_id ms = List.map_filter (rendered_line g ai_user_id) ms"

definition chars_of :: "string list \<Rightarrow> int" where
  "chars_of ls = int (length (concat ls))"

text \<open>
  The messages the scan reaches: with a boundary that passes the truth test, those before
  the first message with the boundary's id; otherwise all of them.
\<close>

definition scanned :: "int option \<Rightarrow> 'n message list \<Rightarrow> 'n message list" where
  "scanned stop_before_message_id ms =
     (if stop_before_message_id \<noteq> None \<and> stop_before_message_id \<noteq> Some 0
      then takeWhile (\<lambda>m. Some (msg_id m) \<noteq> stop_before_message_id) ms
      else ms)"

text \<open>
  The lines taken from a list of lines under a budget: whole lines from the front, up to
  the first line that is longer than what is left.
\<close>

fun fit :: "int \<Rightarrow> string list \<Rightarrow> string list" where
  "fit budget [] = []"
| "fit budget (l # ls) =
     (if int (length l) > budget then [] else l # fit (budget - int (length l)) ls)"

text \<open>A generator and messages for concrete runs.\<close>

definition example_line_template :: "string \<Rightarrow> string \<Rightarrow> string" where
  "example_line_template name text = name @ '': '' @ text @ [CHR 0x0A]"

definition example_generator :: "int \<Rightarrow> prompt_generator" where
  "example_generator budget =
     \<lparr> ai_name = ''Rosie'', max_history_chars = budget,
       history_line_template = example_line_template \<rparr>"

definition user_message :: "int \<Rightarrow> int \<Rightarrow> string \<Rightarrow> string \<Rightarrow> int message" where
  "user_message ident uid name text =
     \<lparr> msg_id = ident, content = text, author_id = uid, author_name = name,
       author_bot = False, guild_name = Some ''guild'', channel_id = 7,
       channel_private = False, mentions = [], created_at = 0 \<rparr>"

section \<open>DiscordBot\<close>

text \<open>
  The constants of \<open>Settings\<close> that the response decision reads; they are configuration.
\<close>

record 'n settings =
  DISCORD_TIME_VS_RESPONSE_CHANCE :: "('n \<times> 'n) list"
  DISCORD_INTERROBANG_BONUS :: 'n

text \<open>
  The fields of the bot that the response decision reads and writes. \<open>user\<close> is the id of
  \<open>self.user\<close>, \<open>None\<close> before the login; \<open>wakeword_patterns\<close> holds the patterns that
  \<open>__init__\<close> compiles from \<open>wakewords\<close>.
\<close>

record 'n discord_bot =
  user :: "int option"
  wakewords :: "string list"
  wakeword_patterns :: "pattern list"
  ignore_dms :: bool
  channel_last_direct_response :: "int \<rightharpoonup> 'n"
  discard_last_response_after_seconds :: 'n


text \<open>The base chance: the first entry of the table whose duration is above the time.\<close>

fun base_chance :: "('n::{ord,zero} \<times> 'n) list \<Rightarrow> 'n \<Rightarrow> 'n" where
  "base_chance [] time_since_last_send = 0"
| "base_chance ((duration, chance) # rest) time_since_last_send =
     (if time_since_last_send < duration then chance
      else base_chance rest time_since_last_send)"

definition response_chance ::
  "('n::{ord,zero,plus}) settings \<Rightarrow> 'n \<Rightarrow> string \<Rightarrow> 'n" where
  "response_chance st time_since_last_send text =
     (let response_chance = base_chance (DISCORD_TIME_VS_RESPONSE_CHANCE st) time_since_last_send;
          response_chance = (if endswith text ''?''
                             then response_chance + DISCORD_INTERROBANG_BONUS st
                             else response_chance);
          response_chance = (if endswith text ''!''
                             then response_chance + DISCORD_INTERROBANG_BONUS st
                             else response_chance)
      in response_chance)"

text \<open>\<open>random_sample\<close> is the value that \<open>random.random()\<close> returns in this call.\<close>

definition should_send_unsolicited_response ::
  "('n::{ord,zero,plus,minus}) discord_bot \<Rightarrow> 'n settings \<Rightarrow> 'n \<Rightarrow> 'n message \<Rightarrow> bool" where
  "should_send_unsolicited_response self st random_sample m =
     (case channel_last_direct_response self (channel_id m) of
        None \<Rightarrow> False
      | Some last_send \<Rightarrow>
          (let time_since_last_send = created_at m - last_send
           in if random_sample < response_chance st time_since_last_send (content m)
              then True else False))"




text \<open>A bot, settings and messages for concrete runs, with real numbers for the floats.\<close>

definition example_settings :: "real settings" where
  "example_settings =
     \<lparr> DISCORD_TIME_VS_RESPONSE_CHANCE = [(10, 1), (60, 4 / 10), (120, 2 / 10)],
       DISCORD_INTERROBANG_BONUS = 3 / 10 \<rparr>"

definition example_bot :: "real discord_bot" where
  "example_bot =
     \<lparr> user = Some 1, wakewords = [''oobabot'', ''bot''],
       wakeword_patterns = [wakeword_search ''oobabot'', wakeword_search ''bot''],
       ignore_dms = False,
       channel_last_direct_response = [7 \<mapsto> 100],
       discard_last_response_after_seconds = 120 \<rparr>"


definition guild_message :: "real \<Rightarrow> string \<Rightarrow> real message" where
  "guild_message time text =
     \<lparr> msg_id = 50, content = text, author_id = 2, author_name = ''Bob'',
       author_bot = False, guild_name = Some ''guild'', channel_id = 7,
       channel_private = False, mentions = [], created_at = time \<rparr>"

section \<open>Streaming a response\<close>

text \<open>
  What \<open>ooba_client.request_by_sentence\<close> yields: a sentence, or the backend's failure.
  \<open>send platform sentence\<close> stands for \<open>raw_message.channel.send(sentence)\<close>: the message
  the platform returns and the platform afterwards, or \<open>None\<close> when the send raises.
\<close>

datatype chunk = Sentence string | BackendError

datatype outcome = Completed | Failed

text \<open>
  The loop of \<open>send_response\<close> over the stream; an exception leaves the loop through the
  handler, which records the failure.
\<close>

fun send_response_loop ::
  "('p \<Rightarrow> string \<Rightarrow> ('n message \<times> 'p) option) \<Rightarrow> string \<Rightarrow> int \<Rightarrow> chunk list
     \<Rightarrow> 'p \<Rightarrow> repetition_tracker \<Rightarrow> outcome \<times> 'p \<times> repetition_tracker" where
  "send_response_loop send ai channel [] platform tracker = (Completed, platform, tracker)"
| "send_response_loop send ai channel (BackendError # rest) platform tracker =
     (Failed, platform, tracker)"
| "send_response_loop send ai channel (Sentence sentence # rest) platform tracker =
     (if ai @ '' says:'' = sentence
      then send_response_loop send ai channel rest platform tracker
      else if endswith sentence '' says:''
      then (Completed, platform, tracker)
      else (case send platform sentence of
              None \<Rightarrow> (Failed, platform, tracker)
            | Some (response_message, platform') \<Rightarrow>
                send_response_loop send ai channel rest platform'
                  (log_message tracker channel response_message)))"

text \<open>
  A platform for concrete runs: the messages sent so far, newest last; a sent message gets
  the next id, counted from 1.
\<close>

definition sent_message :: "int \<Rightarrow> int \<Rightarrow> string \<Rightarrow> int message" where
  "sent_message channel ident text =
     \<lparr> msg_id = ident, content = text, author_id = 1, author_name = ''Rosie'',
       author_bot = True, guild_name = None, channel_id = channel,
       channel_private = False, mentions = [], created_at = 0 \<rparr>"

definition outbox_send :: "int \<Rightarrow> int message list \<Rightarrow> string \<Rightarrow> (int message \<times> int message list) option" where
  "outbox_send channel outbox text =
     (let m = sent_message channel (int (length outbox) + 1) text
      in Some (m, outbox @ [m]))"

section \<open>The sanitizer\<close>

lemma re_sub_class_map:
  "re_sub_class cls [r] s = map (\<lambda>c. if c \<in> set cls then r else c) s"
  by (induction s) auto

text \<open>
  Claim C7. \<open>sanitize_string\<close> puts one space in the place of each newline, carriage
  return and tab and keeps every other character (so the length and all other positions
  are unchanged); its result holds none of the three characters; applying it twice is
  applying it once.
\<close>

theorem sanitize_string_spec:
  "sanitize_string s =
     map (\<lambda>c. if c = CHR 0x0A \<or> c = CHR 0x0D \<or> c = CHR 0x09 then CHR '' '' else c) s
   \<and> CHR 0x0A \<notin> set (sanitize_string s)
   \<and> CHR 0x0D \<notin> set (sanitize_string s)
   \<and> CHR 0x09 \<notin> set (sanitize_string s)
   \<and> sanitize_string (sanitize_string s) = sanitize_string s"
  by (auto simp: sanitize_string_def re_sub_class_map FORBIDDEN_CHARACTERS_def)

theorem sanitize_string_spec_witness:
  "sanitize_string [CHR ''a'', CHR 0x0A, CHR 0x09, CHR ''b''] = ''a  b''
   \<and> sanitize_string (sanitize_string [CHR ''a'', CHR 0x0A, CHR 0x09, CHR ''b'']) = ''a  b''"
proof -
  note spec = sanitize_string_spec [of "[CHR ''a'', CHR 0x0A, CHR 0x09, CHR ''b'']"]
  have once: "sanitize_string [CHR ''a'', CHR 0x0A, CHR 0x09, CHR ''b''] = ''a  b''"
    using spec by simp
  have twice: "sanitize_string (sanitize_string [CHR ''a'', CHR 0x0A, CHR 0x09, CHR ''b''])
                 = sanitize_string [CHR ''a'', CHR 0x0A, CHR 0x09, CHR ''b'']"
    using spec by blast
  show ?thesis using once twice by simp
qed

section \<open>The repetition tracker\<close>

lemma log_message_threshold [simp]:
  "repetition_threshold (log_message t ch m) = repetition_threshold t"
  by (simp add: log_message_def Let_def split: prod.splits)

lemma log_message_other:
  "ch' \<noteq> ch \<Longrightarrow> repetition_count (log_message t ch m) ch' = repetition_count t ch'"
  by (simp add: log_message_def Let_def split: prod.splits)

lemma log_message_known:
  "repetition_count t ch = Some (prev, b, n) \<Longrightarrow>
   repetition_count (log_message t ch m) ch =
     Some (make_canonical (content m),
           (if repetition_threshold t \<le> (if prev = make_canonical (content m) then n + 1 else 0)
            then msg_id m else b),
           (if prev = make_canonical (content m) then n + 1 else 0))"
  by (simp add: log_message_def Let_def should_throttle_def)

lemma log_message_fresh:
  "repetition_count t ch = None \<Longrightarrow>
   repetition_count (log_message t ch m) ch =
     Some (make_canonical (content m),
           (if repetition_threshold t \<le> (if make_canonical (content m) = [] then 1 else 0)
            then msg_id m else 0),
           (if make_canonical (content m) = [] then 1 else 0))"
  by (auto simp add: log_message_def Let_def should_throttle_def)

lemma log_messages_threshold [simp]:
  "repetition_threshold (log_messages t evs) = repetition_threshold t"
  by (induction t evs rule: log_messages.induct) simp_all

lemma log_messages_append:
  "log_messages t (xs @ ys) = log_messages (log_messages t xs) ys"
  by (induction t xs rule: log_messages.induct) simp_all

text \<open>Repeating the stored canonical text: the counter grows by one with each message.\<close>

lemma repeat_known:
  "repetition_count t ch = Some (c, b, n) \<Longrightarrow>
   \<forall>m \<in> set ms. make_canonical (content m) = c \<Longrightarrow>
   \<exists>b'. repetition_count (log_messages t (map (Pair ch) ms)) ch
           = Some (c, b', n + int (length ms))
        \<and> (ms \<noteq> [] \<longrightarrow> repetition_threshold t \<le> n + int (length ms)
              \<longrightarrow> b' = msg_id (last ms))"
proof (induction ms arbitrary: t b n)
  case Nil
  then show ?case by simp
next
  case (Cons m ms)
  let ?t = "log_message t ch m"
  let ?b = "if repetition_threshold t \<le> n + 1 then msg_id m else b"
  have canon: "make_canonical (content m) = c" using Cons.prems(2) by simp
  have step: "repetition_count ?t ch = Some (c, ?b, n + 1)"
    using log_message_known [OF Cons.prems(1), of m] canon by simp
  have rest: "\<forall>m \<in> set ms. make_canonical (content m) = c" using Cons.prems(2) by simp
  from Cons.IH [OF step rest] obtain b' where
    b': "repetition_count (log_messages ?t (map (Pair ch) ms)) ch
           = Some (c, b', n + 1 + int (length ms))"
    and last: "ms \<noteq> [] \<longrightarrow> repetition_threshold ?t \<le> n + 1 + int (length ms)
                 \<longrightarrow> b' = msg_id (last ms)"
    by blast
  show ?case
  proof (cases "ms = []")
    case True
    then show ?thesis using step by simp
  next
    case False
    then show ?thesis using b' last by (simp add: add.assoc)
  qed
qed

lemma repeat_fresh:
  assumes thr: "0 \<le> repetition_threshold t"
    and fresh: "repetition_count t ch = None"
    and len: "length ms = nat (repetition_threshold t) + 1"
    and same: "\<forall>m \<in> set ms. make_canonical (content m) = c"
  shows "get_throttle_message_id (log_messages t (map (Pair ch) ms)) ch
           = Some (msg_id (last ms))"
proof -
  from len obtain m rest where ms: "ms = m # rest" by (cases ms) auto
  let ?t = "log_message t ch m"
  let ?n = "if c = [] then 1 else 0 :: int"
  let ?b = "if repetition_threshold t \<le> ?n then msg_id m else 0"
  have canon: "make_canonical (content m) = c" using same ms by simp
  have step: "repetition_count ?t ch = Some (c, ?b, ?n)"
    using log_message_fresh [OF fresh, of m] canon by simp
  have rest: "\<forall>m \<in> set rest. make_canonical (content m) = c" using same ms by simp
  have lrest: "int (length rest) = repetition_threshold t" using len ms thr by simp
  from repeat_known [OF step rest] obtain b' where
    b': "repetition_count (log_messages ?t (map (Pair ch) rest)) ch
           = Some (c, b', ?n + int (length rest))"
    and last: "rest \<noteq> [] \<longrightarrow> repetition_threshold ?t \<le> ?n + int (length rest)
                 \<longrightarrow> b' = msg_id (last rest)"
    by blast
  show ?thesis
  proof (cases "rest = []")
    case True
    then have "repetition_threshold t = 0" using lrest by simp
    then show ?thesis using True ms step by (simp add: get_throttle_message_id_def)
  next
    case False
    then have "b' = msg_id (last rest)" using last lrest by simp
    then show ?thesis using False ms b' by (simp add: get_throttle_message_id_def)
  qed
qed

text \<open>
  Claim C1. \<open>log_message\<close> compares the trimmed, lower-cased text of the message with the
  canonical text stored for the conversation. When they are equal the counter grows by
  one, otherwise it becomes zero; when the new counter is at least the threshold the
  boundary becomes the id of this message, otherwise it stays; the stored text becomes
  the new canonical text in both cases. Hence, for a threshold of at least 0, the same
  canonical text fed threshold + 1 times in a row into a conversation with no state
  leaves the boundary at the id of the last of these messages.
\<close>

theorem log_message_counts_repetitions:
  "(repetition_count t ch = Some (prev, b, n) \<and> lower (strip (content m)) = prev \<longrightarrow>
      repetition_count (log_message t ch m) ch =
        Some (prev, (if repetition_threshold t \<le> n + 1 then msg_id m else b), n + 1))
   \<and> (repetition_count t ch = Some (prev, b, n) \<and> lower (strip (content m)) \<noteq> prev \<longrightarrow>
      repetition_count (log_message t ch m) ch =
        Some (lower (strip (content m)),
              (if repetition_threshold t \<le> 0 then msg_id m else b), 0))
   \<and> (0 \<le> repetition_threshold t \<and> repetition_count t ch = None
       \<and> length ms = nat (repetition_threshold t) + 1
       \<and> (\<forall>x \<in> set ms. lower (strip (content x)) = c) \<longrightarrow>
      get_throttle_message_id (log_messages t (map (Pair ch) ms)) ch
        = Some (msg_id (last ms)))"
proof (intro conjI impI)
  assume "repetition_count t ch = Some (prev, b, n) \<and> lower (strip (content m)) = prev"
  then show "repetition_count (log_message t ch m) ch =
        Some (prev, (if repetition_threshold t \<le> n + 1 then msg_id m else b), n + 1)"
    using log_message_known [of t ch prev b n m] by (auto simp: make_canonical_def)
next
  assume "repetition_count t ch = Some (prev, b, n) \<and> lower (strip (content m)) \<noteq> prev"
  then show "repetition_count (log_message t ch m) ch =
        Some (lower (strip (content m)),
              (if repetition_threshold t \<le> 0 then msg_id m else b), 0)"
    using log_message_known [of t ch prev b n m] by (auto simp: make_canonical_def)
next
  assume "0 \<le> repetition_threshold t \<and> repetition_count t ch = None
       \<and> length ms = nat (repetition_threshold t) + 1
       \<and> (\<forall>x \<in> set ms. lower (strip (content x)) = c)"
  then show "get_throttle_message_id (log_messages t (map (Pair ch) ms)) ch
               = Some (msg_id (last ms))"
    using repeat_fresh [of t ch ms c] by (simp add: make_canonical_def)
qed

theorem log_message_counts_repetitions_witness:
  "get_throttle_message_id
     (log_messages (new_tracker 1)
        (map (Pair 7) [sent_message 7 11 ''Ok. '', sent_message 7 12 '' ok.''])) 7 = Some 12
   \<and> repetition_count
       (log_message \<lparr>repetition_threshold = 1, repetition_count = [7 \<mapsto> (''ok.'', 0, 0)]\<rparr> 7
          (sent_message 7 12 '' ok.'')) 7 = Some (''ok.'', 12, 1)
   \<and> repetition_count
       (log_message \<lparr>repetition_threshold = 1, repetition_count = [7 \<mapsto> (''ok.'', 12, 1)]\<rparr> 7
          (sent_message 7 13 ''New'')) 7 = Some (''new'', 12, 0)"
proof -
  have c1: "lower (strip ''Ok. '') = ''ok.''" by code_simp
  have c2: "lower (strip '' ok.'') = ''ok.''" by code_simp
  have c3: "lower (strip ''New'') = ''new''" by code_simp
  have a: "get_throttle_message_id
     (log_messages (new_tracker 1)
        (map (Pair 7) [sent_message 7 11 ''Ok. '', sent_message 7 12 '' ok.''])) 7 = Some 12"
    using log_message_counts_repetitions
      [of "new_tracker 1" 7 "[]" 0 0 "sent_message 7 11 ''Ok. ''"
          "[sent_message 7 11 ''Ok. '', sent_message 7 12 '' ok.'']" "''ok.''"] c1 c2
    by (simp add: new_tracker_def sent_message_def)
  have b: "repetition_count
       (log_message \<lparr>repetition_threshold = 1, repetition_count = [7 \<mapsto> (''ok.'', 0, 0)]\<rparr> 7
          (sent_message 7 12 '' ok.'')) 7 = Some (''ok.'', 12, 1)"
    using log_message_counts_repetitions
      [of "\<lparr>repetition_threshold = 1, repetition_count = [7 \<mapsto> (''ok.'', 0, 0)]\<rparr>" 7
          "''ok.''" 0 0 "sent_message 7 12 '' ok.''" "[]" "[]"] c2
    by (simp add: sent_message_def)
  have c: "repetition_count
       (log_message \<lparr>repetition_threshold = 1, repetition_count = [7 \<mapsto> (''ok.'', 12, 1)]\<rparr> 7
          (sent_message 7 13 ''New'')) 7 = Some (''new'', 12, 0)"
    using log_message_counts_repetitions
      [of "\<lparr>repetition_threshold = 1, repetition_count = [7 \<mapsto> (''ok.'', 12, 1)]\<rparr>" 7
          "''ok.''" 12 1 "sent_message 7 13 ''New''" "[]" "[]"] c3
    by (simp add: sent_message_def)
  show ?thesis using a b c by simp
qed

lemma strip_blank:
  assumes "\<forall>c \<in> set s. isspace c"
  shows "strip s = []"
proof -
  have blank: "dropWhile isspace s = []" using assms by simp
  show ?thesis unfolding strip_def blank by simp
qed

text \<open>
  Claim C10. A conversation with no recorded message compares the first message with the
  default text, the empty string: a first message that is empty or all white space has
  the empty canonical text and counts as a repetition, so the counter is 1 (and 0 for any
  other first message); with the threshold 1 the boundary is the id of that first message.
\<close>

theorem first_blank_message_counts_as_repetition:
  "(repetition_count t ch = None \<and> (\<forall>c \<in> set (content m). isspace c) \<longrightarrow>
      make_canonical (content m) = []
      \<and> repetition_count (log_message t ch m) ch
          = Some ([], (if repetition_threshold t \<le> 1 then msg_id m else 0), 1)
      \<and> (repetition_threshold t = 1 \<longrightarrow>
            get_throttle_message_id (log_message t ch m) ch = Some (msg_id m)))
   \<and> (repetition_count t ch = None \<and> make_canonical (content m) \<noteq> [] \<longrightarrow>
      logged_count (log_message t ch m) ch = 0)"
proof (intro conjI impI)
  assume h: "repetition_count t ch = None \<and> (\<forall>c \<in> set (content m). isspace c)"
  then show canon: "make_canonical (content m) = []"
    by (simp add: make_canonical_def strip_blank lower_def)
  show entry: "repetition_count (log_message t ch m) ch
          = Some ([], (if repetition_threshold t \<le> 1 then msg_id m else 0), 1)"
    using h canon log_message_fresh [of t ch m] by simp
  assume "repetition_threshold t = 1"
  then show "get_throttle_message_id (log_message t ch m) ch = Some (msg_id m)"
    using entry by (simp add: get_throttle_message_id_def)
next
  assume "repetition_count t ch = None \<and> make_canonical (content m) \<noteq> []"
  then show "logged_count (log_message t ch m) ch = 0"
    using log_message_fresh [of t ch m] by (simp add: logged_count_def)
qed

theorem first_blank_message_counts_as_repetition_witness:
  "get_throttle_message_id (log_message (new_tracker 1) 7 (sent_message 7 11 ''  '')) 7 = Some 11
   \<and> logged_count (log_message (new_tracker 1) 7 (sent_message 7 11 ''  '')) 7 = 1
   \<and> logged_count (log_message (new_tracker 1) 7 (sent_message 7 11 ''a'')) 7 = 0"
proof -
  have blank: "\<forall>c \<in> set ''  ''. isspace c" by (simp add: isspace_def code_point_def)
  have canon: "make_canonical ''a'' \<noteq> []" by code_simp
  note blank_case = first_blank_message_counts_as_repetition
      [of "new_tracker 1" 7 "sent_message 7 11 ''  ''"]
  note other_case = first_blank_message_counts_as_repetition
      [of "new_tracker 1" 7 "sent_message 7 11 ''a''"]
  have a: "get_throttle_message_id (log_message (new_tracker 1) 7 (sent_message 7 11 ''  '')) 7 = Some 11"
    using blank_case blank by (simp add: new_tracker_def sent_message_def)
  have b: "logged_count (log_message (new_tracker 1) 7 (sent_message 7 11 ''  '')) 7 = 1"
    using blank_case blank by (simp add: new_tracker_def sent_message_def logged_count_def)
  have c: "logged_count (log_message (new_tracker 1) 7 (sent_message 7 11 ''a'')) 7 = 0"
    using other_case canon by (simp add: new_tracker_def sent_message_def)
  show ?thesis using a b c by simp
qed

lemma log_message_defined: "repetition_count (log_message t ch m) ch \<noteq> None"
  by (simp add: log_message_def Let_def split: prod.splits)

lemma log_messages_untouched:
  "ch \<notin> fst ` set evs \<Longrightarrow> repetition_count (log_messages t evs) ch = repetition_count t ch"
  by (induction t evs rule: log_messages.induct) (auto simp: log_message_other)

lemma log_message_keeps_defined:
  "repetition_count t ch \<noteq> None \<Longrightarrow> repetition_count (log_message t c m) ch \<noteq> None"
  by (cases "ch = c") (simp_all add: log_message_defined log_message_other)

lemma log_messages_keep_defined:
  "repetition_count t ch \<noteq> None \<Longrightarrow> repetition_count (log_messages t evs) ch \<noteq> None"
  by (induction t evs rule: log_messages.induct) (simp_all add: log_message_keeps_defined)

lemma log_messages_defined:
  "ch \<in> fst ` set evs \<Longrightarrow> repetition_count (log_messages t evs) ch \<noteq> None"
proof (induction t evs rule: log_messages.induct)
  case (1 t)
  then show ?case by simp
next
  case (2 t c m rest)
  show ?case
  proof (cases "c = ch")
    case True
    then show ?thesis
      using log_messages_keep_defined [OF log_message_defined, of t ch m rest] by simp
  next
    case False
    then show ?thesis using 2 by auto
  qed
qed

lemma log_message_no_boundary:
  assumes "no_boundary t ch"
    and "\<not> (c = ch \<and> should_throttle t (logged_count (log_message t c m) c))"
  shows "no_boundary (log_message t c m) ch"
proof (cases "c = ch")
  case False
  then show ?thesis using assms(1)
    by (simp add: no_boundary_def get_throttle_message_id_def log_message_other)
next
  case True
  show ?thesis
  proof (cases "repetition_count t ch")
    case None
    then show ?thesis using assms(2) True log_message_fresh [OF None, of m]
      by (auto simp: no_boundary_def get_throttle_message_id_def logged_count_def
            should_throttle_def split: if_splits)
  next
    case (Some e)
    obtain p b n where e: "e = (p, b, n)" by (cases e) auto
    have b0: "b = 0" using assms(1) Some e
      by (simp add: no_boundary_def get_throttle_message_id_def)
    show ?thesis using assms(2) True log_message_known [of t ch p b n m] Some e b0
      by (auto simp: no_boundary_def get_throttle_message_id_def logged_count_def
            should_throttle_def split: if_splits)
  qed
qed

lemma log_messages_no_boundary:
  "no_boundary t ch \<Longrightarrow> \<not> ever_throttled t ch evs \<Longrightarrow> no_boundary (log_messages t evs) ch"
proof (induction t evs rule: log_messages.induct)
  case (1 t)
  then show ?case by simp
next
  case (2 t c m rest)
  have "no_boundary (log_message t c m) ch"
    using log_message_no_boundary [OF "2.prems"(1), of c m] "2.prems"(2) by simp
  then show ?case using 2 by simp
qed

text \<open>
  Claim C9. \<open>get_throttle_message_id\<close> returns the boundary stored for the conversation.
  It returns \<open>None\<close> when no message of the bot was recorded for the conversation (a new
  tracker, or messages of other conversations only), and the empty value \<open>0\<close> when
  messages were recorded and the counter never reached the threshold.
\<close>

theorem get_throttle_message_id_spec:
  "(repetition_count t ch = Some (prev, b, n) \<longrightarrow> get_throttle_message_id t ch = Some b)
   \<and> (repetition_count t ch = None \<longrightarrow> get_throttle_message_id t ch = None)
   \<and> get_throttle_message_id (new_tracker threshold) ch = None
   \<and> (repetition_count t ch = None \<and> ch \<notin> fst ` set evs \<longrightarrow>
        get_throttle_message_id (log_messages t evs) ch = None)
   \<and> (repetition_count t ch = None \<and> ch \<in> fst ` set evs \<and> \<not> ever_throttled t ch evs \<longrightarrow>
        get_throttle_message_id (log_messages t evs) ch = Some 0)"
proof (intro conjI impI)
  show "get_throttle_message_id (new_tracker threshold) ch = None"
    by (simp add: get_throttle_message_id_def new_tracker_def)
next
  assume "repetition_count t ch = Some (prev, b, n)"
  then show "get_throttle_message_id t ch = Some b"
    by (simp add: get_throttle_message_id_def)
next
  assume "repetition_count t ch = None"
  then show "get_throttle_message_id t ch = None"
    by (simp add: get_throttle_message_id_def)
next
  assume "repetition_count t ch = None \<and> ch \<notin> fst ` set evs"
  then show "get_throttle_message_id (log_messages t evs) ch = None"
    using log_messages_untouched [of ch evs t] by (simp add: get_throttle_message_id_def)
next
  assume h: "repetition_count t ch = None \<and> ch \<in> fst ` set evs \<and> \<not> ever_throttled t ch evs"
  then have "no_boundary t ch" by (simp add: no_boundary_def get_throttle_message_id_def)
  then have "no_boundary (log_messages t evs) ch"
    using h log_messages_no_boundary by blast
  moreover have "repetition_count (log_messages t evs) ch \<noteq> None"
    using h log_messages_defined by blast
  ultimately show "get_throttle_message_id (log_messages t evs) ch = Some 0"
    by (auto simp: no_boundary_def get_throttle_message_id_def)
qed


theorem get_throttle_message_id_spec_witness:
  "get_throttle_message_id
     (log_messages (new_tracker 1) [(7, sent_message 7 11 ''a''), (7, sent_message 7 12 ''b'')]) 7
     = Some 0
   \<and> get_throttle_message_id
     (log_messages (new_tracker 1) [(7, sent_message 7 11 ''a''), (7, sent_message 7 12 ''b'')]) 8
     = None
   \<and> get_throttle_message_id
       \<lparr>repetition_threshold = 1, repetition_count = [7 \<mapsto> (''ok.'', 12, 1)]\<rparr> 7 = Some 12"
proof -
  let ?evs = "[(7, sent_message 7 11 ''a''), (7, sent_message 7 12 ''b'')] :: (int \<times> int message) list"
  have ca: "make_canonical ''a'' = ''a''" by code_simp
  have cb: "make_canonical ''b'' = ''b''" by code_simp
  have quiet: "\<not> ever_throttled (new_tracker 1) 7 ?evs"
    by (simp add: new_tracker_def sent_message_def log_message_def should_throttle_def
          logged_count_def ca cb)
  note spec7 = get_throttle_message_id_spec [of "new_tracker 1" 7 "[]" 0 0 1 ?evs]
  note spec8 = get_throttle_message_id_spec [of "new_tracker 1" 8 "[]" 0 0 1 ?evs]
  note spec = get_throttle_message_id_spec
      [of "\<lparr>repetition_threshold = 1, repetition_count = [7 \<mapsto> (''ok.'', 12, 1)]\<rparr>" 7
          "''ok.''" 12 1 1 "[]"]
  have a: "get_throttle_message_id (log_messages (new_tracker 1) ?evs) 7 = Some 0"
    using spec7 quiet by (simp add: new_tracker_def)
  have b: "get_throttle_message_id (log_messages (new_tracker 1) ?evs) 8 = None"
    using spec8 by (simp add: new_tracker_def)
  have c: "get_throttle_message_id
       \<lparr>repetition_threshold = 1, repetition_count = [7 \<mapsto> (''ok.'', 12, 1)]\<rparr> 7 = Some 12"
    using spec by simp
  show ?thesis using a b c by simp
qed

lemma log_messages_boundary:
  "get_throttle_message_id t ch = Some b \<Longrightarrow>
   get_throttle_message_id (log_messages t evs) ch = Some b
   \<or> (\<exists>m. (ch, m) \<in> set evs \<and> get_throttle_message_id (log_messages t evs) ch = Some (msg_id m))"
proof (induction t evs arbitrary: b rule: log_messages.induct)
  case (1 t)
  then show ?case by simp
next
  case (2 t c m rest)
  obtain p n where e: "repetition_count t ch = Some (p, b, n)"
    using "2.prems" by (auto simp: get_throttle_message_id_def split: option.splits)
  show ?case
  proof (cases "c = ch")
    case False
    then have "get_throttle_message_id (log_message t c m) ch = Some b"
      using e by (simp add: get_throttle_message_id_def log_message_other)
    from "2.IH" [OF this] show ?thesis by auto
  next
    case True
    have "get_throttle_message_id (log_message t c m) ch = Some b
          \<or> get_throttle_message_id (log_message t c m) ch = Some (msg_id m)"
      using True log_message_known [OF e, of m] by (simp add: get_throttle_message_id_def)
    then show ?thesis
    proof
      assume "get_throttle_message_id (log_message t c m) ch = Some b"
      from "2.IH" [OF this] show ?thesis by auto
    next
      assume "get_throttle_message_id (log_message t c m) ch = Some (msg_id m)"
      from "2.IH" [OF this] show ?thesis using True by auto
    qed
  qed
qed

text \<open>
  Claim C4, amended. With a boundary stored and a threshold of at least 1, a message whose
  canonical text differs from the stored text sets the counter to zero and keeps the
  boundary. A call of \<open>log_message\<close> changes the boundary only when the new counter is at
  least the threshold, and then to the id of the logged message. No sequence of calls
  clears it: afterwards the boundary is the old one or the id of a later message of the
  conversation.
\<close>

theorem throttle_boundary_persists:
  "(0 < repetition_threshold t \<and> repetition_count t ch = Some (prev, b, n)
      \<and> make_canonical (content m) \<noteq> prev \<longrightarrow>
      repetition_count (log_message t ch m) ch = Some (make_canonical (content m), b, 0))
   \<and> (repetition_count t ch = Some (prev, b, n)
      \<and> get_throttle_message_id (log_message t ch m) ch \<noteq> Some b \<longrightarrow>
      should_throttle t (logged_count (log_message t ch m) ch)
      \<and> get_throttle_message_id (log_message t ch m) ch = Some (msg_id m))
   \<and> (get_throttle_message_id t ch = Some b \<longrightarrow>
      get_throttle_message_id (log_messages t evs) ch = Some b
      \<or> (\<exists>x. (ch, x) \<in> set evs
             \<and> get_throttle_message_id (log_messages t evs) ch = Some (msg_id x)))"
proof (intro conjI impI)
  assume "0 < repetition_threshold t \<and> repetition_count t ch = Some (prev, b, n)
      \<and> make_canonical (content m) \<noteq> prev"
  then show "repetition_count (log_message t ch m) ch = Some (make_canonical (content m), b, 0)"
    using log_message_known [of t ch prev b n m] by auto
next
  assume h: "repetition_count t ch = Some (prev, b, n)
      \<and> get_throttle_message_id (log_message t ch m) ch \<noteq> Some b"
  then show "should_throttle t (logged_count (log_message t ch m) ch)"
    using log_message_known [of t ch prev b n m]
    by (auto simp: get_throttle_message_id_def logged_count_def should_throttle_def
          split: if_splits)
  show "get_throttle_message_id (log_message t ch m) ch = Some (msg_id m)"
    using h log_message_known [of t ch prev b n m]
    by (auto simp: get_throttle_message_id_def split: if_splits)
next
  assume "get_throttle_message_id t ch = Some b"
  then show "get_throttle_message_id (log_messages t evs) ch = Some b
      \<or> (\<exists>x. (ch, x) \<in> set evs
             \<and> get_throttle_message_id (log_messages t evs) ch = Some (msg_id x))"
    by (rule log_messages_boundary)
qed

theorem throttle_boundary_persists_witness:
  "repetition_count
     (log_message \<lparr>repetition_threshold = 1, repetition_count = [7 \<mapsto> (''ok.'', 12, 1)]\<rparr> 7
        (sent_message 7 13 ''New'')) 7 = Some (''new'', 12, 0)
   \<and> get_throttle_message_id
     (log_message \<lparr>repetition_threshold = 1, repetition_count = [7 \<mapsto> (''ok.'', 12, 1)]\<rparr> 7
        (sent_message 7 14 ''OK.'')) 7 = Some 14
   \<and> get_throttle_message_id
     (log_messages \<lparr>repetition_threshold = 1, repetition_count = [7 \<mapsto> (''ok.'', 12, 1)]\<rparr>
        [(7, sent_message 7 13 ''New''), (8, sent_message 8 20 ''hi'')]) 7 = Some 12"
proof -
  let ?t = "\<lparr>repetition_threshold = 1, repetition_count = [7 \<mapsto> (''ok.'', 12, 1)]\<rparr>"
  let ?evs = "[(7, sent_message 7 13 ''New''), (8, sent_message 8 20 ''hi'')] :: (int \<times> int message) list"
  have cn: "make_canonical ''New'' = ''new''" by code_simp
  have co: "make_canonical ''OK.'' = ''ok.''" by code_simp
  have ch: "make_canonical ''hi'' = ''hi''" by code_simp
  note differs = throttle_boundary_persists [of ?t 7 "''ok.''" 12 1 "sent_message 7 13 ''New''" "[]"]
  note repeats = throttle_boundary_persists [of ?t 7 "''ok.''" 12 1 "sent_message 7 14 ''OK.''" ?evs]
  have a: "repetition_count (log_message ?t 7 (sent_message 7 13 ''New'')) 7 = Some (''new'', 12, 0)"
    using differs cn by (simp add: sent_message_def)
  have moved: "get_throttle_message_id (log_message ?t 7 (sent_message 7 14 ''OK.'')) 7 \<noteq> Some 12"
    by (simp add: get_throttle_message_id_def log_message_def should_throttle_def
          sent_message_def co)
  have b: "get_throttle_message_id (log_message ?t 7 (sent_message 7 14 ''OK.'')) 7 = Some 14"
    using repeats moved by (simp add: sent_message_def)
  have stored: "get_throttle_message_id ?t 7 = Some 12"
    by (simp add: get_throttle_message_id_def)
  have c: "get_throttle_message_id (log_messages ?t ?evs) 7 = Some 12"
    using repeats stored
    by (simp add: get_throttle_message_id_def log_message_def should_throttle_def
          sent_message_def cn ch)
  show ?thesis using a b c by simp
qed

text \<open>
  Claim C4 as stated fails for the threshold \<open>0\<close>, which the constructor accepts: the
  counter \<open>0\<close> of a differing text is then at the threshold, and the stored boundary is
  overwritten with the id of that message.
\<close>

theorem differing_text_at_threshold_zero_counterexample:
  "get_throttle_message_id
       \<lparr>repetition_threshold = 0, repetition_count = [7 \<mapsto> (''ok.'', 12, 1)]\<rparr> 7 = Some 12
   \<and> make_canonical (content (sent_message 7 13 ''New'')) \<noteq> ''ok.''
   \<and> repetition_count
       (log_message \<lparr>repetition_threshold = 0, repetition_count = [7 \<mapsto> (''ok.'', 12, 1)]\<rparr> 7
          (sent_message 7 13 ''New'')) 7 = Some (''new'', 13, 0)"
proof -
  have cn: "make_canonical ''New'' = ''new''" by code_simp
  show ?thesis
    by (simp add: get_throttle_message_id_def log_message_def should_throttle_def
          sent_message_def cn)
qed

section \<open>The history of the prompt\<close>

lemma rendered_lines_Cons:
  "rendered_lines g ai (m # ms) =
     (case rendered_line g ai m of None \<Rightarrow> rendered_lines g ai ms
      | Some l \<Rightarrow> l # rendered_lines g ai ms)"
  by (cases "rendered_line g ai m") (simp_all add: rendered_lines_def map_filter_simps)

lemma history_loop_scanned:
  "history_loop g ai stop ms remaining acc = history_loop g ai None (scanned stop ms) remaining acc"
proof (induction ms arbitrary: remaining acc)
  case Nil
  then show ?case by (simp add: scanned_def)
next
  case (Cons m ms)
  show ?case
  proof (cases "stop \<noteq> None \<and> stop \<noteq> Some 0")
    case False
    then show ?thesis using Cons by (auto simp: scanned_def Let_def)
  next
    case True
    then have sc: "scanned stop (m # ms) =
        (if Some (msg_id m) = stop then [] else m # scanned stop ms)"
      by (auto simp: scanned_def)
    show ?thesis
    proof (cases "Some (msg_id m) = stop")
      case True
      then show ?thesis using \<open>stop \<noteq> None \<and> stop \<noteq> Some 0\<close> sc by simp
    next
      case False
      then show ?thesis using sc Cons by (simp add: Let_def)
    qed
  qed
qed

lemma history_loop_fit:
  "history_loop g ai None ms remaining acc = acc @ fit remaining (rendered_lines g ai ms)"
proof (induction ms arbitrary: remaining acc)
  case Nil
  then show ?case by (simp add: rendered_lines_def map_filter_simps)
next
  case (Cons m ms)
  show ?case
    by (simp add: rendered_lines_Cons rendered_line_def Let_def Cons)
qed

lemma generate_history_fit:
  "generate_history g ai ms stop =
     concat (rev (fit (max_history_chars g) (rendered_lines g ai (scanned stop ms))))"
  unfolding generate_history_def
  by (subst history_loop_scanned) (simp add: history_loop_fit)

lemma chars_of_Cons: "chars_of (l # ls) = int (length l) + chars_of ls"
  by (simp add: chars_of_def)

lemma fit_bound: "0 \<le> budget \<Longrightarrow> chars_of (fit budget ls) \<le> budget"
proof (induction ls arbitrary: budget)
  case Nil
  then show ?case by (simp add: chars_of_def)
next
  case (Cons l ls)
  show ?case
  proof (cases "int (length l) > budget")
    case True
    then show ?thesis using Cons.prems by (simp add: chars_of_def)
  next
    case False
    then have "chars_of (fit (budget - int (length l)) ls) \<le> budget - int (length l)"
      using Cons.IH [of "budget - int (length l)"] by simp
    then show ?thesis using False by (simp add: chars_of_Cons)
  qed
qed

lemma fit_take:
  "\<exists>n \<le> length ls. fit budget ls = take n ls
      \<and> (n < length ls \<longrightarrow> chars_of (take (Suc n) ls) > budget)"
proof (induction ls arbitrary: budget)
  case Nil
  then show ?case by simp
next
  case (Cons l ls)
  show ?case
  proof (cases "int (length l) > budget")
    case True
    then have "fit budget (l # ls) = take 0 (l # ls)
        \<and> (0 < length (l # ls) \<longrightarrow> chars_of (take (Suc 0) (l # ls)) > budget)"
      by (simp add: chars_of_def)
    then show ?thesis by blast
  next
    case False
    from Cons.IH [of "budget - int (length l)"] obtain n where
      n: "n \<le> length ls" "fit (budget - int (length l)) ls = take n ls"
         "n < length ls \<longrightarrow> chars_of (take (Suc n) ls) > budget - int (length l)"
      by blast
    have "Suc n \<le> length (l # ls) \<and> fit budget (l # ls) = take (Suc n) (l # ls)
        \<and> (Suc n < length (l # ls) \<longrightarrow> chars_of (take (Suc (Suc n)) (l # ls)) > budget)"
      using n False by (auto simp: chars_of_Cons)
    then show ?thesis by blast
  qed
qed

lemma length_concat_rev: "length (concat (rev ls)) = length (concat ls)"
  by (induction ls) simp_all

text \<open>
  Claim C2. With a budget of \<open>B\<close> characters (\<open>B\<close> at least 0) the history is at most
  \<open>B\<close> characters long. It is made of whole lines: the first \<open>n\<close> rendered lines of the
  scan, newest first, put oldest first and concatenated with nothing between them; and
  when a rendered line is left, the scan stopped at it because it did not fit into what
  was left of the budget.
\<close>

theorem generate_history_within_budget:
  "(0 \<le> max_history_chars g \<longrightarrow>
      int (length (generate_history g ai ms stop)) \<le> max_history_chars g)
   \<and> (\<exists>n \<le> length (rendered_lines g ai (scanned stop ms)).
        generate_history g ai ms stop
          = concat (rev (take n (rendered_lines g ai (scanned stop ms))))
        \<and> (n < length (rendered_lines g ai (scanned stop ms)) \<longrightarrow>
             chars_of (take (Suc n) (rendered_lines g ai (scanned stop ms)))
               > max_history_chars g))"
proof (intro conjI impI)
  assume "0 \<le> max_history_chars g"
  then have "chars_of (fit (max_history_chars g) (rendered_lines g ai (scanned stop ms)))
               \<le> max_history_chars g"
    by (rule fit_bound)
  then show "int (length (generate_history g ai ms stop)) \<le> max_history_chars g"
    by (simp add: generate_history_fit length_concat_rev chars_of_def)
next
  from fit_take [of "rendered_lines g ai (scanned stop ms)" "max_history_chars g"]
  show "\<exists>n \<le> length (rendered_lines g ai (scanned stop ms)).
        generate_history g ai ms stop
          = concat (rev (take n (rendered_lines g ai (scanned stop ms))))
        \<and> (n < length (rendered_lines g ai (scanned stop ms)) \<longrightarrow>
             chars_of (take (Suc n) (rendered_lines g ai (scanned stop ms)))
               > max_history_chars g)"
    by (auto simp: generate_history_fit)
qed

text \<open>
  Claim C3. The loop tests the boundary id for truth, and \<open>0\<close> is what \<open>log_message\<close>
  stores while no boundary is set; the ids of messages are Discord's and never \<open>0\<close>. For
  every boundary id \<open>k\<close>, on a history with no message of id \<open>0\<close> (or with \<open>k\<close> not \<open>0\<close>),
  the scan stops at the first message with the id \<open>k\<close>, exclusive: the history is the one
  assembled from the messages newer than it, and neither that message nor any older one
  changes the result.
\<close>

theorem generate_history_stops_before_boundary:
  "(k \<noteq> 0 \<or> (\<forall>x \<in> set ms. msg_id x \<noteq> 0) \<longrightarrow>
      generate_history g ai ms (Some k)
        = generate_history g ai (takeWhile (\<lambda>m. msg_id m \<noteq> k) ms) None)
   \<and> (msg_id m = k \<and> (k \<noteq> 0 \<or> (\<forall>x \<in> set (newer @ m # older). msg_id x \<noteq> 0)) \<longrightarrow>
      generate_history g ai (newer @ m # older) (Some k)
        = generate_history g ai newer (Some k))"
proof (intro conjI impI)
  assume h: "k \<noteq> 0 \<or> (\<forall>x \<in> set ms. msg_id x \<noteq> 0)"
  show "generate_history g ai ms (Some k)
        = generate_history g ai (takeWhile (\<lambda>m. msg_id m \<noteq> k) ms) None"
  proof (cases "k = 0")
    case False
    then show ?thesis by (simp add: generate_history_fit scanned_def)
  next
    case True
    have "\<forall>x \<in> set ms. msg_id x \<noteq> 0" using h True by simp
    then have all: "takeWhile (\<lambda>m. msg_id m \<noteq> 0) ms = ms"
      by (simp add: takeWhile_eq_all_conv)
    show ?thesis unfolding True all by (simp add: generate_history_fit scanned_def)
  qed
next
  assume h: "msg_id m = k \<and> (k \<noteq> 0 \<or> (\<forall>x \<in> set (newer @ m # older). msg_id x \<noteq> 0))"
  then have k: "k \<noteq> 0" by auto
  have "takeWhile (\<lambda>x. msg_id x \<noteq> k) (newer @ m # older) = takeWhile (\<lambda>x. msg_id x \<noteq> k) newer"
    using h by (induction newer) auto
  then show "generate_history g ai (newer @ m # older) (Some k)
        = generate_history g ai newer (Some k)"
    using k by (simp add: generate_history_fit scanned_def)
qed

theorem generate_history_within_budget_witness:
  "0 \<le> max_history_chars (example_generator 25)
   \<and> generate_history (example_generator 25) 1
       [user_message 13 2 ''Bob'' ''hi'', user_message 12 1 ''bot'' ''hello'',
        user_message 11 2 ''Bob'' ''good morning'', user_message 10 2 ''Bob'' ''x''] None
       = ''Rosie: hello'' @ [CHR 0x0A] @ ''Bob: hi'' @ [CHR 0x0A]
   \<and> int (length (generate_history (example_generator 25) 1
       [user_message 13 2 ''Bob'' ''hi'', user_message 12 1 ''bot'' ''hello'',
        user_message 11 2 ''Bob'' ''good morning'', user_message 10 2 ''Bob'' ''x''] None)) \<le> 25"
proof -
  let ?ms = "[user_message 13 2 ''Bob'' ''hi'', user_message 12 1 ''bot'' ''hello'',
        user_message 11 2 ''Bob'' ''good morning'', user_message 10 2 ''Bob'' ''x'']"
  have budget: "0 \<le> max_history_chars (example_generator 25)"
    by (simp add: example_generator_def)
  have run: "generate_history (example_generator 25) 1 ?ms None
       = ''Rosie: hello'' @ [CHR 0x0A] @ ''Bob: hi'' @ [CHR 0x0A]"
    by code_simp
  have "int (length (generate_history (example_generator 25) 1 ?ms None))
          \<le> max_history_chars (example_generator 25)"
    using generate_history_within_budget [of "example_generator 25" 1 ?ms None] budget
    by blast
  then show ?thesis using budget run by (simp add: example_generator_def)
qed

theorem generate_history_stops_before_boundary_witness:
  "generate_history (example_generator 25) 1
     [user_message 13 2 ''Bob'' ''hi'', user_message 12 1 ''bot'' ''hello'',
      user_message 11 2 ''Bob'' ''x''] (Some 12)
     = ''Bob: hi'' @ [CHR 0x0A]
   \<and> generate_history (example_generator 25) 1
     ([user_message 13 2 ''Bob'' ''hi''] @ user_message 12 1 ''bot'' ''hello''
        # [user_message 11 2 ''Bob'' ''x'']) (Some 12)
     = generate_history (example_generator 25) 1 [user_message 13 2 ''Bob'' ''hi''] (Some 12)
   \<and> generate_history (example_generator 25) 1
     [user_message 13 2 ''Bob'' ''hi'', user_message 12 1 ''bot'' ''hello'',
      user_message 11 2 ''Bob'' ''x''] (Some 0)
     = generate_history (example_generator 25) 1
     [user_message 13 2 ''Bob'' ''hi'', user_message 12 1 ''bot'' ''hello'',
      user_message 11 2 ''Bob'' ''x''] None"
proof -
  let ?ms = "[user_message 13 2 ''Bob'' ''hi'', user_message 12 1 ''bot'' ''hello'',
      user_message 11 2 ''Bob'' ''x'']"
  have ident: "msg_id (user_message 12 1 ''bot'' ''hello'') = 12" by (simp add: user_message_def)
  have cut: "takeWhile (\<lambda>m. msg_id m \<noteq> 12) ?ms = [user_message 13 2 ''Bob'' ''hi'']"
    by (simp add: user_message_def)
  have whole: "takeWhile (\<lambda>m. msg_id m \<noteq> 0) ?ms = ?ms"
    by (simp add: user_message_def)
  have ids: "\<forall>x \<in> set ?ms. msg_id x \<noteq> 0" by (simp add: user_message_def)
  have run: "generate_history (example_generator 25) 1 [user_message 13 2 ''Bob'' ''hi''] None
       = ''Bob: hi'' @ [CHR 0x0A]"
    by code_simp
  note at12 = generate_history_stops_before_boundary
      [where k = 12 and g = "example_generator 25" and ai = 1 and ms = ?ms
         and m = "user_message 12 1 ''bot'' ''hello''"
         and newer = "[user_message 13 2 ''Bob'' ''hi'']"
         and older = "[user_message 11 2 ''Bob'' ''x'']"]
  note at0 = generate_history_stops_before_boundary
      [where k = 0 and g = "example_generator 25" and ai = 1 and ms = ?ms]
  have k: "(12::int) \<noteq> 0" by simp
  have "generate_history (example_generator 25) 1 ?ms (Some 12)
          = generate_history (example_generator 25) 1 (takeWhile (\<lambda>m. msg_id m \<noteq> 12) ?ms) None"
    using at12 k by blast
  then have a: "generate_history (example_generator 25) 1 ?ms (Some 12)
                  = ''Bob: hi'' @ [CHR 0x0A]"
    unfolding cut run .
  have b: "generate_history (example_generator 25) 1
     ([user_message 13 2 ''Bob'' ''hi''] @ user_message 12 1 ''bot'' ''hello''
        # [user_message 11 2 ''Bob'' ''x'']) (Some 12)
     = generate_history (example_generator 25) 1 [user_message 13 2 ''Bob'' ''hi''] (Some 12)"
    using at12 k ident by blast
  have "generate_history (example_generator 25) 1 ?ms (Some 0)
          = generate_history (example_generator 25) 1 (takeWhile (\<lambda>m. msg_id m \<noteq> 0) ?ms) None"
    using at0 ids by blast
  then have c: "generate_history (example_generator 25) 1 ?ms (Some 0)
                  = generate_history (example_generator 25) 1 ?ms None"
    unfolding whole .
  show ?thesis using a b c by blast
qed

section \<open>The filters of the streamed response\<close>

lemma label_endswith: "endswith (ai @ '' says:'') '' says:''"
  by (simp add: endswith_def)



lemma send_response_loop_Sentence:
  "send_response_loop send ai channel (Sentence x # rest) p t =
     (if ai @ '' says:'' = x then send_response_loop send ai channel rest p t
      else if endswith x '' says:'' then (Completed, p, t)
      else (case send p x of
              None \<Rightarrow> (Failed, p, t)
            | Some (response_message, p') \<Rightarrow>
                send_response_loop send ai channel rest p'
                  (log_message t channel response_message)))"
  by (rule send_response_loop.simps)

lemma send_response_loop_abort:
  assumes "endswith s '' says:''" and "s \<noteq> ai @ '' says:''"
  shows "send_response_loop send ai channel (before @ Sentence s # rest) p t
     = send_response_loop send ai channel before p t"
proof (induction before arbitrary: p t)
  case Nil
  have "ai @ '' says:'' \<noteq> s" using assms(2) by blast
  then show ?case using assms(1)
    by (simp only: append_Nil send_response_loop_Sentence send_response_loop.simps(1) if_False if_True)
next
  case (Cons c before)
  show ?case
  proof (cases c)
    case BackendError
    then show ?thesis by (simp only: append_Cons send_response_loop.simps(2))
  next
    case (Sentence x)
    show ?thesis
      unfolding Sentence append_Cons send_response_loop_Sentence [of _ _ _ x] Cons.IH
      by (rule refl)
  qed
qed


lemma send_response_loop_drop_label:
  "send_response_loop send ai channel (before @ Sentence (ai @ '' says:'') # rest) p t
     = send_response_loop send ai channel (before @ rest) p t"
proof (induction before arbitrary: p t)
  case Nil
  show ?case
    by (simp only: append_Nil send_response_loop_Sentence simp_thms if_True)
next
  case (Cons c before)
  show ?case
  proof (cases c)
    case BackendError
    then show ?thesis by (simp only: append_Cons send_response_loop.simps(2))
  next
    case (Sentence x)
    show ?thesis
      unfolding Sentence append_Cons send_response_loop_Sentence [of _ _ _ x] Cons.IH
      by (rule refl)
  qed
qed

text \<open>
  Claim C6. In one streamed response a sentence equal to \<open>"<AI_NAME> says:"\<close> is dropped
  and the stream goes on: the run is the run of the stream without it. Any other sentence
  that ends with \<open>" says:"\<close> is dropped and ends the run: the platform and the tracker
  are those reached before it, so no later sentence is sent or recorded. A sentence that
  does not end with \<open>" says:"\<close> is sent and then recorded.
\<close>

theorem send_response_filters_role_labels:
  "send_response_loop send ai channel (before @ Sentence (ai @ '' says:'') # rest) p t
     = send_response_loop send ai channel (before @ rest) p t
   \<and> (endswith s '' says:'' \<and> s \<noteq> ai @ '' says:'' \<longrightarrow>
        send_response_loop send ai channel (Sentence s # rest) p t = (Completed, p, t)
        \<and> send_response_loop send ai channel (before @ Sentence s # rest) p t
            = send_response_loop send ai channel before p t)
   \<and> (\<not> endswith s '' says:'' \<and> send p s = Some (m, p') \<longrightarrow>
        send_response_loop send ai channel (Sentence s # rest) p t
          = send_response_loop send ai channel rest p' (log_message t channel m))"
proof (intro conjI impI)
  show "send_response_loop send ai channel (before @ Sentence (ai @ '' says:'') # rest) p t
     = send_response_loop send ai channel (before @ rest) p t"
    by (rule send_response_loop_drop_label)
next
  assume h: "endswith s '' says:'' \<and> s \<noteq> ai @ '' says:''"
  then have ends: "endswith s '' says:''" and other: "s \<noteq> ai @ '' says:''" by blast+
  from send_response_loop_abort [OF ends other, of send channel "[]" rest p t]
  show "send_response_loop send ai channel (Sentence s # rest) p t = (Completed, p, t)"
    by (simp only: append_Nil send_response_loop.simps(1))
  show "send_response_loop send ai channel (before @ Sentence s # rest) p t
            = send_response_loop send ai channel before p t"
    using ends other by (rule send_response_loop_abort)
next
  assume h: "\<not> endswith s '' says:'' \<and> send p s = Some (m, p')"
  then have no: "\<not> endswith s '' says:''" and sent: "send p s = Some (m, p')" by blast+
  have other: "ai @ '' says:'' \<noteq> s" using no label_endswith by blast
  show "send_response_loop send ai channel (Sentence s # rest) p t
          = send_response_loop send ai channel rest p' (log_message t channel m)"
    using no other sent
    by (simp only: send_response_loop_Sentence if_False option.case prod.case)
qed


theorem send_response_filters_role_labels_witness:
  "map content (fst (snd (send_response_loop (outbox_send 7) ''Rosie'' 7
      ([Sentence ''Hello.'', Sentence ''Rosie says:'', Sentence ''How are you?'']
         @ Sentence ''Bob says:'' # [Sentence ''I am Bob.''])
      [] (new_tracker 1))))
     = [''Hello.'', ''How are you?'']
   \<and> repetition_count (snd (snd (send_response_loop (outbox_send 7) ''Rosie'' 7
      ([Sentence ''Hello.'', Sentence ''Rosie says:'', Sentence ''How are you?'']
         @ Sentence ''Bob says:'' # [Sentence ''I am Bob.''])
      [] (new_tracker 1)))) 7
     = Some (''how are you?'', 0, 0)"
proof -
  have bob: "endswith ''Bob says:'' '' says:'' \<and> ''Bob says:'' \<noteq> ''Rosie'' @ '' says:''"
    by (simp add: endswith_def)
  have c1: "make_canonical ''Hello.'' = ''hello.''" by code_simp
  have c2: "make_canonical ''How are you?'' = ''how are you?''" by code_simp
  have cut: "send_response_loop (outbox_send 7) ''Rosie'' 7
      ([Sentence ''Hello.'', Sentence ''Rosie says:'', Sentence ''How are you?'']
         @ Sentence ''Bob says:'' # [Sentence ''I am Bob.'']) [] (new_tracker 1)
     = send_response_loop (outbox_send 7) ''Rosie'' 7
      [Sentence ''Hello.'', Sentence ''Rosie says:'', Sentence ''How are you?''] [] (new_tracker 1)"
    using send_response_filters_role_labels
      [of "outbox_send 7" "''Rosie''" 7
          "[Sentence ''Hello.'', Sentence ''Rosie says:'', Sentence ''How are you?'']"
          "[Sentence ''I am Bob.'']" "[]" "new_tracker 1" "''Bob says:''"] bob
    by blast
  have run: "send_response_loop (outbox_send 7) ''Rosie'' 7
      [Sentence ''Hello.'', Sentence ''Rosie says:'', Sentence ''How are you?''] [] (new_tracker 1)
     = (Completed, [sent_message 7 1 ''Hello.'', sent_message 7 2 ''How are you?''],
        log_message (log_message (new_tracker 1) 7 (sent_message 7 1 ''Hello.'')) 7
          (sent_message 7 2 ''How are you?''))"
    by (simp add: outbox_send_def Let_def endswith_def)
  show ?thesis unfolding cut run
    by (simp add: sent_message_def log_message_def new_tracker_def should_throttle_def c1 c2)
qed

section \<open>The response decision\<close>

lemma base_chance_find:
  "base_chance table elapsed =
     (case find (\<lambda>(duration, chance). elapsed < duration) table of
        None \<Rightarrow> 0 | Some (duration, chance) \<Rightarrow> chance)"
  by (induction table elapsed rule: base_chance.induct) simp_all

lemma endswith_single: "endswith s [c] = (s \<noteq> [] \<and> last s = c)"
proof (cases s rule: rev_cases)
  case Nil
  then show ?thesis by (simp add: endswith_def)
next
  case (snoc xs x)
  then show ?thesis by (auto simp: endswith_def)
qed

lemma not_both_suffixes: "\<not> (endswith s ''?'' \<and> endswith s ''!'')"
  by (auto simp: endswith_single)

text \<open>
  Claim C5, amended. For a message that reaches the unsolicited-response check with a last
  direct response recorded for its channel, the bot responds exactly when the random
  sample is below the response chance. The chance is the chance of the first entry of the
  table whose duration is above the elapsed time, 0 when there is none, plus the bonus
  when the text ends with \<open>?\<close> or with \<open>!\<close>. Both tests run in every call, but no text
  ends with both, so the bonus is added at most once. A chance of 1 or more answers every
  sample below 1.
\<close>

theorem unsolicited_response_chance:
  fixes st :: "('n::{order,zero,one,plus,minus}) settings"
  shows
  "(channel_last_direct_response self (channel_id m) = Some last_send \<longrightarrow>
      should_send_unsolicited_response self st random_sample m
        = (random_sample < response_chance st (created_at m - last_send) (content m)))
   \<and> response_chance st elapsed text =
       (if endswith text ''?'' \<or> endswith text ''!''
        then base_chance (DISCORD_TIME_VS_RESPONSE_CHANCE st) elapsed
               + DISCORD_INTERROBANG_BONUS st
        else base_chance (DISCORD_TIME_VS_RESPONSE_CHANCE st) elapsed)
   \<and> \<not> (endswith text ''?'' \<and> endswith text ''!'')
   \<and> base_chance (DISCORD_TIME_VS_RESPONSE_CHANCE st) elapsed =
       (case find (\<lambda>(duration, chance). elapsed < duration)
               (DISCORD_TIME_VS_RESPONSE_CHANCE st) of
          None \<Rightarrow> 0 | Some (duration, chance) \<Rightarrow> chance)
   \<and> (channel_last_direct_response self (channel_id m) = Some last_send
       \<and> random_sample < 1
       \<and> 1 \<le> response_chance st (created_at m - last_send) (content m) \<longrightarrow>
      should_send_unsolicited_response self st random_sample m)"
proof (intro conjI impI)
  assume "channel_last_direct_response self (channel_id m) = Some last_send"
  then show "should_send_unsolicited_response self st random_sample m
        = (random_sample < response_chance st (created_at m - last_send) (content m))"
    by (simp add: should_send_unsolicited_response_def)
next
  show "response_chance st elapsed text =
       (if endswith text ''?'' \<or> endswith text ''!''
        then base_chance (DISCORD_TIME_VS_RESPONSE_CHANCE st) elapsed
               + DISCORD_INTERROBANG_BONUS st
        else base_chance (DISCORD_TIME_VS_RESPONSE_CHANCE st) elapsed)"
    using not_both_suffixes [of "text"] by (auto simp: response_chance_def Let_def)
next
  show "\<not> (endswith text ''?'' \<and> endswith text ''!'')" by (rule not_both_suffixes)
next
  show "base_chance (DISCORD_TIME_VS_RESPONSE_CHANCE st) elapsed =
       (case find (\<lambda>(duration, chance). elapsed < duration)
               (DISCORD_TIME_VS_RESPONSE_CHANCE st) of
          None \<Rightarrow> 0 | Some (duration, chance) \<Rightarrow> chance)"
    by (rule base_chance_find)
next
  assume h: "channel_last_direct_response self (channel_id m) = Some last_send
       \<and> random_sample < 1
       \<and> 1 \<le> response_chance st (created_at m - last_send) (content m)"
  then have "random_sample < response_chance st (created_at m - last_send) (content m)"
    by (meson less_le_trans)
  then show "should_send_unsolicited_response self st random_sample m"
    using h by (simp add: should_send_unsolicited_response_def)
qed

theorem unsolicited_response_chance_witness:
  "should_send_unsolicited_response example_bot example_settings (1 / 2)
     (guild_message 130 ''really?'')
   \<and> \<not> should_send_unsolicited_response example_bot example_settings (8 / 10)
     (guild_message 130 ''really?'')
   \<and> response_chance example_settings 30 ''really?'' = 7 / 10
   \<and> should_send_unsolicited_response example_bot example_settings (99 / 100)
     (guild_message 105 ''hi!'')"
proof -
  have last: "channel_last_direct_response example_bot (channel_id (guild_message 130 ''really?''))
                = Some 100"
    by (simp add: example_bot_def guild_message_def)
  have last': "channel_last_direct_response example_bot (channel_id (guild_message 105 ''hi!''))
                = Some 100"
    by (simp add: example_bot_def guild_message_def)
  have chance: "response_chance example_settings 30 ''really?'' = 7 / 10"
    using unsolicited_response_chance [of example_bot "guild_message 130 ''really?''" 100
        example_settings "1 / 2" 30 "''really?''"]
    by (simp add: example_settings_def endswith_def)
  have chance': "response_chance example_settings 5 ''hi!'' = 13 / 10"
    by (simp add: response_chance_def example_settings_def endswith_def)
  have a: "should_send_unsolicited_response example_bot example_settings (1 / 2)
     (guild_message 130 ''really?'')"
    using unsolicited_response_chance [of example_bot "guild_message 130 ''really?''" 100
        example_settings "1 / 2" 30 "''really?''"] last chance
    by (simp add: guild_message_def)
  have b: "\<not> should_send_unsolicited_response example_bot example_settings (8 / 10)
     (guild_message 130 ''really?'')"
    using unsolicited_response_chance [of example_bot "guild_message 130 ''really?''" 100
        example_settings "8 / 10" 30 "''really?''"] last chance
    by (simp add: guild_message_def)
  have c: "should_send_unsolicited_response example_bot example_settings (99 / 100)
     (guild_message 105 ''hi!'')"
    using unsolicited_response_chance [of example_bot "guild_message 105 ''hi!''" 100
        example_settings "99 / 100" 5 "''hi!''"] last' chance'
    by (simp add: guild_message_def)
  show ?thesis using a b c chance by blast
qed

text \<open>
  Claim C5 as stated lets the bonus double when both suffix tests match. No text matches
  both: a text ending in \<open>?!\<close> gets the bonus once.
\<close>

theorem bonus_never_doubles_counterexample:
  "\<not> (\<exists>text. endswith text ''?'' \<and> endswith text ''!'')
   \<and> response_chance example_settings 30 ''what?!'' = 4 / 10 + 3 / 10"
proof -
  have "response_chance example_settings 30 ''what?!'' = 4 / 10 + 3 / 10"
    by (simp add: response_chance_def example_settings_def endswith_def)
  then show ?thesis using not_both_suffixes by blast
qed

section \<open>Wakewords\<close>


































end
